theory Spec2Isabelle
  imports Complex_Main "HOL-Library.Word" "HOL-Library.Log_Nat"
begin

section \<open>System B: the TEG driver (TEG\_Heating\&Cooling.ino)\<close>

subsection \<open>The board: output pins, serial port, and the calls made on them\<close>

datatype level = LOW | HIGH

text \<open>Every call the sketch makes on the Arduino core, in program order.\<close>

datatype event =
    DigitalWrite int level
  | AnalogWrite int int
  | SerialPrintln string
  | Delay nat

text \<open>
  The board as the sketch sees it: for each pin the level last written with
  \<^verbatim>\<open>digitalWrite\<close> and the duty cycle last written with \<^verbatim>\<open>analogWrite\<close>, the bytes
  waiting in the serial receive buffer (oldest first), and the trace of calls made so far.
\<close>

record board =
  levels :: "int \<Rightarrow> level"
  duties :: "int \<Rightarrow> int"
  serial_in :: "char list"
  trace :: "event list"

text \<open>
  Modelled from the spec: the Arduino core is not part of the repository. Section 6 gives
  the output sink as accepting ``a pin identifier and either a binary level (digital) or
  an 8-bit duty cycle (PWM)'', and the byte stream as ``bytes available'', ``read one
  byte'' and ``write line''.
\<close>

definition digitalWrite :: "int \<Rightarrow> level \<Rightarrow> board \<Rightarrow> board" where
  "digitalWrite p v b = b\<lparr>levels := (levels b)(p := v), trace := trace b @ [DigitalWrite p v]\<rparr>"

definition analogWrite :: "int \<Rightarrow> int \<Rightarrow> board \<Rightarrow> board" where
  "analogWrite p v b = b\<lparr>duties := (duties b)(p := v), trace := trace b @ [AnalogWrite p v]\<rparr>"

definition Serial_available :: "board \<Rightarrow> int" where
  "Serial_available b = int (length (serial_in b))"

text \<open>\<^verbatim>\<open>Serial.read()\<close> returns the oldest byte as an \<^verbatim>\<open>int\<close>, or -1 when none waits.\<close>

definition Serial_read :: "board \<Rightarrow> int \<times> board" where
  "Serial_read b =
     (case serial_in b of
        [] \<Rightarrow> (- 1, b)
      | c # cs \<Rightarrow> (of_char c, b\<lparr>serial_in := cs\<rparr>))"

definition Serial_println :: "string \<Rightarrow> board \<Rightarrow> board" where
  "Serial_println s b = b\<lparr>trace := trace b @ [SerialPrintln s]\<rparr>"

definition delay :: "nat \<Rightarrow> board \<Rightarrow> board" where
  "delay ms b = b\<lparr>trace := trace b @ [Delay ms]\<rparr>"

subsection \<open>class TEG\<close>

record TEG =
  enable_pin :: int
  pin1 :: int
  pin2 :: int

definition forward :: "TEG \<Rightarrow> int \<Rightarrow> board \<Rightarrow> board" where
  "forward t pwm b =
     analogWrite (enable_pin t) pwm (digitalWrite (pin2 t) LOW (digitalWrite (pin1 t) HIGH b))"

definition backward :: "TEG \<Rightarrow> int \<Rightarrow> board \<Rightarrow> board" where
  "backward t pwm b =
     analogWrite (enable_pin t) pwm (digitalWrite (pin2 t) HIGH (digitalWrite (pin1 t) LOW b))"

definition stop :: "TEG \<Rightarrow> board \<Rightarrow> board" where
  "stop t b =
     analogWrite (enable_pin t) 0 (digitalWrite (pin2 t) LOW (digitalWrite (pin1 t) LOW b))"

text \<open>The pin numbers and the two instances of the sketch.\<close>

definition ena :: int where "ena = 2"
definition in1 :: int where "in1 = 3"
definition in2 :: int where "in2 = 4"
definition in3 :: int where "in3 = 5"
definition in4 :: int where "in4 = 6"
definition enb :: int where "enb = 7"

definition TEG_L :: TEG where
  "TEG_L = \<lparr>enable_pin = ena, pin1 = in1, pin2 = in2\<rparr>"

definition TEG_R :: TEG where
  "TEG_R = \<lparr>enable_pin = enb, pin1 = in3, pin2 = in4\<rparr>"

subsection \<open>loop() of the driver sketch\<close>

text \<open>
  One iteration of \<^verbatim>\<open>loop()\<close> (named \<open>teg_loop\<close> here, since both sketches have a
  \<^verbatim>\<open>loop\<close>). \<^verbatim>\<open>char command = Serial.read()\<close> keeps the low eight
  bits of the value read; the chain of comparisons is in the order of the source.
\<close>

definition dispatch :: "char \<Rightarrow> board \<Rightarrow> board" where
  "dispatch command b =
     (if command = CHR ''a'' then Serial_println ''a'' (forward TEG_L 255 b)
      else if command = CHR ''s'' then Serial_println ''s'' (stop TEG_R (stop TEG_L b))
      else if command = CHR ''d'' then Serial_println ''d'' (backward TEG_L 255 b)
      else if command = CHR ''w'' then Serial_println ''w'' (forward TEG_R 135 b)
      else if command = CHR ''x'' then Serial_println ''x'' (backward TEG_R 135 b)
      else b)"

definition teg_loop :: "board \<Rightarrow> board" where
  "teg_loop b =
     delay 100
       (if Serial_available b > 0
        then (case Serial_read b of (r, b1) \<Rightarrow> dispatch (char_of r) b1)
        else b)"

subsection \<open>Vocabulary of the claims\<close>

text \<open>The calls made between a board state and a later one.\<close>

definition new_events :: "board \<Rightarrow> board \<Rightarrow> event list" where
  "new_events b b' = drop (length (trace b)) (trace b')"

text \<open>The three operations of an actuator, as one type, to speak about all of them.\<close>

datatype teg_op = Forward int | Backward int | Stop

fun teg_call :: "TEG \<Rightarrow> teg_op \<Rightarrow> board \<Rightarrow> board" where
  "teg_call t (Forward pwm) b = forward t pwm b"
| "teg_call t (Backward pwm) b = backward t pwm b"
| "teg_call t Stop b = stop t b"

definition forward_active :: "TEG \<Rightarrow> board \<Rightarrow> bool" where
  "forward_active t b \<longleftrightarrow> levels b (pin1 t) = HIGH \<and> levels b (pin2 t) = LOW"

definition backward_active :: "TEG \<Rightarrow> board \<Rightarrow> bool" where
  "backward_active t b \<longleftrightarrow> levels b (pin1 t) = LOW \<and> levels b (pin2 t) = HIGH"

definition stopped :: "TEG \<Rightarrow> board \<Rightarrow> bool" where
  "stopped t b \<longleftrightarrow> levels b (pin1 t) = LOW \<and> levels b (pin2 t) = LOW"

definition both_active :: "TEG \<Rightarrow> board \<Rightarrow> bool" where
  "both_active t b \<longleftrightarrow> levels b (pin1 t) = HIGH \<and> levels b (pin2 t) = HIGH"

text \<open>How many of the three actuator states the direction pins are in.\<close>

definition states_held :: "TEG \<Rightarrow> board \<Rightarrow> nat" where
  "states_held t b = length (filter id [forward_active t b, backward_active t b, stopped t b])"

text \<open>A board on which nothing has happened yet, with the given bytes received.\<close>

definition board0 :: "string \<Rightarrow> board" where
  "board0 inp = \<lparr>levels = (\<lambda>p. LOW), duties = (\<lambda>p. 0), serial_in = inp, trace = []\<rparr>"

section \<open>System A: the analog sampler (the second sketch)\<close>

subsection \<open>binary32 arithmetic\<close>

text \<open>
  The sketch computes in \<^verbatim>\<open>float\<close>. On the AVR boards it is written for (5 V reference,
  10-bit converter) \<^verbatim>\<open>float\<close> and \<^verbatim>\<open>double\<close> are both IEEE 754 binary32, \<^verbatim>\<open>int\<close> has
  16 bits and \<^verbatim>\<open>unsigned long\<close> has 32. A finite binary32 value is modelled by the
  rational number it denotes, and every operation returns the exact result rounded to
  the nearest binary32 value, ties to the even significand: 24 significant bits for
  normal numbers, multiples of \<open>2\<^sup>-\<^sup>1\<^sup>4\<^sup>9\<close> below \<open>2\<^sup>-\<^sup>1\<^sup>2\<^sup>6\<close>. Infinities and NaN are not
  modelled: with 16-bit readings the globals of the sketch never exceed 32768 in
  magnitude and the voltage never exceeds 160 (\<open>states_bounded\<close>, \<open>convert_bounded\<close>).
\<close>

text \<open>The exponent of a positive rational: \<open>2 powi ilog2 x \<le> x < 2 powi (ilog2 x + 1)\<close>.\<close>

definition ilog2 :: "rat \<Rightarrow> int" where
  "ilog2 x =
     (case quotient_of x of (p, q) \<Rightarrow>
        let d = bitlen p - bitlen q in if 2 powi d \<le> x then d else d - 1)"

definition round_even :: "rat \<Rightarrow> int" where
  "round_even x =
     (let n = \<lfloor>x\<rfloor>; r = x - of_int n
      in if r < 1 / 2 then n else if 1 / 2 < r then n + 1 else if even n then n else n + 1)"

text \<open>The spacing of binary32 values around \<open>x\<close>, for \<open>x\<close> other than 0.\<close>

definition f32_ulp :: "rat \<Rightarrow> rat" where
  "f32_ulp x = 2 powi (max (ilog2 \<bar>x\<bar>) (- 126) - 23)"

definition f32_round :: "rat \<Rightarrow> rat" where
  "f32_round x = (if x = 0 then 0 else of_int (round_even (x / f32_ulp x)) * f32_ulp x)"

definition f32_of_int :: "int \<Rightarrow> rat" where
  "f32_of_int n = f32_round (of_int n)"

definition f32_add :: "rat \<Rightarrow> rat \<Rightarrow> rat" where
  "f32_add x y = f32_round (x + y)"

definition f32_sub :: "rat \<Rightarrow> rat \<Rightarrow> rat" where
  "f32_sub x y = f32_round (x - y)"

definition f32_mul :: "rat \<Rightarrow> rat \<Rightarrow> rat" where
  "f32_mul x y = f32_round (x * y)"

definition f32_div :: "rat \<Rightarrow> rat \<Rightarrow> rat" where
  "f32_div x y = f32_round (x / y)"

text \<open>
  The sketch divides by 1024 only; a divisor of 0, where binary32 gives an infinity or
  NaN, is outside the model.
\<close>

text \<open>The rationals that are binary32 values.\<close>

definition is_f32 :: "rat \<Rightarrow> bool" where
  "is_f32 x \<longleftrightarrow> f32_round x = x"

subsection \<open>The globals of the sketch\<close>

record sampler =
  analogValue :: rat
  previousMillis :: "32 word"
  alpha :: rat
  last_val :: rat

definition interval :: "32 word" where
  "interval = 50"

definition sampler_init :: sampler where
  "sampler_init =
     \<lparr>analogValue = f32_of_int 0, previousMillis = 0,
      alpha = f32_round (9 / 10), last_val = f32_round (- 1)\<rparr>"

subsection \<open>loop() of the sampler sketch\<close>

text \<open>What the sketch writes on the serial port: the arguments of its print calls.\<close>

datatype serial_item =
    PrintULong "32 word"
  | PrintStr string
  | PrintlnFloat rat

text \<open>
  Lines 43 to 51: the reading is converted to \<^verbatim>\<open>float\<close>, smoothed when \<^verbatim>\<open>last_val > 0\<close>,
  and stored in both \<^verbatim>\<open>analogValue\<close> and \<^verbatim>\<open>last_val\<close>. The value the filter returns is
  \<open>analogValue\<close> of the new state.
\<close>

definition filter_update :: "sampler \<Rightarrow> 16 word \<Rightarrow> sampler" where
  "filter_update s reading =
     (let raw = f32_of_int (sint reading);
          smoothed =
            (if 0 < last_val s
             then f32_add (f32_mul (alpha s) (last_val s))
                          (f32_mul (f32_sub (f32_of_int 1) (alpha s)) raw)
             else raw)
      in s\<lparr>analogValue := smoothed, last_val := smoothed\<rparr>)"

text \<open>Line 54: \<^verbatim>\<open>analogValue * 5.00 / 1024.0\<close>.\<close>

definition convert :: "rat \<Rightarrow> rat" where
  "convert x = f32_div (f32_mul x (f32_round 5)) (f32_round 1024)"

text \<open>
  One iteration of \<^verbatim>\<open>loop()\<close>, given what \<^verbatim>\<open>millis()\<close> returns in it and what
  \<^verbatim>\<open>analogRead(A0)\<close> returns if it is called. The comparison is on \<^verbatim>\<open>unsigned long\<close>: the
  subtraction wraps around at \<open>2\<^sup>3\<^sup>2\<close>.
\<close>

definition sampler_loop :: "sampler \<Rightarrow> 32 word \<Rightarrow> 16 word \<Rightarrow> serial_item list \<times> sampler" where
  "sampler_loop s currentMillis reading =
     (if interval \<le> currentMillis - previousMillis s
      then let s' = filter_update (s\<lparr>previousMillis := currentMillis\<rparr>) reading;
               voltage = convert (analogValue s')
           in ([PrintULong currentMillis, PrintStr '','', PrintlnFloat voltage], s')
      else ([], s))"

text \<open>
  The sketch run over a list of iterations, each with its clock value and its reading:
  what every iteration prints, the clock values of the iterations that sample, and the
  globals after every iteration.
\<close>

fun outputs :: "sampler \<Rightarrow> (32 word \<times> 16 word) list \<Rightarrow> serial_item list list" where
  "outputs s [] = []"
| "outputs s ((now, reading) # ticks) =
     (case sampler_loop s now reading of (out, s') \<Rightarrow> out # outputs s' ticks)"

fun fire_times :: "sampler \<Rightarrow> (32 word \<times> 16 word) list \<Rightarrow> 32 word list" where
  "fire_times s [] = []"
| "fire_times s ((now, reading) # ticks) =
     (case sampler_loop s now reading of
        (out, s') \<Rightarrow> (if out = [] then [] else [now]) @ fire_times s' ticks)"

fun states :: "sampler \<Rightarrow> (32 word \<times> 16 word) list \<Rightarrow> sampler list" where
  "states s [] = []"
| "states s ((now, reading) # ticks) =
     (case sampler_loop s now reading of (out, s') \<Rightarrow> s' # states s' ticks)"

text \<open>
  The same run with the iterations given by the time elapsed since start, in ms, however
  long: \<^verbatim>\<open>millis()\<close> returns that time modulo \<open>2\<^sup>3\<^sup>2\<close>. The result is the elapsed times of
  the iterations that sample.
\<close>

fun sample_moments :: "sampler \<Rightarrow> (nat \<times> 16 word) list \<Rightarrow> nat list" where
  "sample_moments s [] = []"
| "sample_moments s ((t, reading) # ticks) =
     (case sampler_loop s (of_nat t) reading of
        (out, s') \<Rightarrow> (if out = [] then [] else [t]) @ sample_moments s' ticks)"

text \<open>
  The globals stay in this range whatever the readings are (shown below), so no operation
  of the sketch comes near the largest binary32 value.
\<close>

definition sampler_bounded :: "sampler \<Rightarrow> bool" where
  "sampler_bounded s \<longleftrightarrow>
     alpha s = f32_round (9 / 10) \<and> \<bar>last_val s\<bar> \<le> 32768 \<and> \<bar>analogValue s\<bar> \<le> 32768"

section \<open>Properties of the TEG driver\<close>

lemma teg_loop_byte:
  "serial_in b = c # rest \<Longrightarrow> teg_loop b = delay 100 (dispatch c (b\<lparr>serial_in := rest\<rparr>))"
  by (simp add: teg_loop_def Serial_available_def Serial_read_def)

lemmas board_ops =
  digitalWrite_def analogWrite_def Serial_println_def delay_def forward_def backward_def
  stop_def new_events_def

lemmas teg_pins = TEG_L_def TEG_R_def ena_def in1_def in2_def in3_def in4_def enb_def

text \<open>
  C5: in an iteration that consumes the byte \<open>a\<close>, the only actuator call is
  \<open>forward\<close> on the left actuator with power 255 (its three pin writes, on pins 3, 4
  and 2), and \<open>a\<close> is printed as a line. In the same way \<open>d\<close> drives the left actuator
  backward at 255, \<open>w\<close> the right one forward at 135, \<open>x\<close> the right one backward at
  135, \<open>s\<close> stops both; each prints its own character as a line. Every iteration ends
  with the 100 ms delay.
\<close>

theorem dispatch_table:
  assumes "serial_in b = c # rest"
  shows "(c = CHR ''a'' \<longrightarrow>
            teg_loop b = delay 100 (Serial_println ''a'' (forward TEG_L 255 (b\<lparr>serial_in := rest\<rparr>))) \<and>
            new_events b (teg_loop b) =
              [DigitalWrite 3 HIGH, DigitalWrite 4 LOW, AnalogWrite 2 255, SerialPrintln ''a'', Delay 100]) \<and>
         (c = CHR ''d'' \<longrightarrow>
            teg_loop b = delay 100 (Serial_println ''d'' (backward TEG_L 255 (b\<lparr>serial_in := rest\<rparr>))) \<and>
            new_events b (teg_loop b) =
              [DigitalWrite 3 LOW, DigitalWrite 4 HIGH, AnalogWrite 2 255, SerialPrintln ''d'', Delay 100]) \<and>
         (c = CHR ''w'' \<longrightarrow>
            teg_loop b = delay 100 (Serial_println ''w'' (forward TEG_R 135 (b\<lparr>serial_in := rest\<rparr>))) \<and>
            new_events b (teg_loop b) =
              [DigitalWrite 5 HIGH, DigitalWrite 6 LOW, AnalogWrite 7 135, SerialPrintln ''w'', Delay 100]) \<and>
         (c = CHR ''x'' \<longrightarrow>
            teg_loop b = delay 100 (Serial_println ''x'' (backward TEG_R 135 (b\<lparr>serial_in := rest\<rparr>))) \<and>
            new_events b (teg_loop b) =
              [DigitalWrite 5 LOW, DigitalWrite 6 HIGH, AnalogWrite 7 135, SerialPrintln ''x'', Delay 100]) \<and>
         (c = CHR ''s'' \<longrightarrow>
            teg_loop b =
              delay 100 (Serial_println ''s'' (stop TEG_R (stop TEG_L (b\<lparr>serial_in := rest\<rparr>)))) \<and>
            new_events b (teg_loop b) =
              [DigitalWrite 3 LOW, DigitalWrite 4 LOW, AnalogWrite 2 0,
               DigitalWrite 5 LOW, DigitalWrite 6 LOW, AnalogWrite 7 0, SerialPrintln ''s'', Delay 100])"
  using assms by (simp add: teg_loop_byte dispatch_def board_ops teg_pins)

theorem dispatch_table_witness:
  "new_events (board0 ''a'') (teg_loop (board0 ''a'')) =
     [DigitalWrite 3 HIGH, DigitalWrite 4 LOW, AnalogWrite 2 255, SerialPrintln ''a'', Delay 100] \<and>
   new_events (board0 ''dq'') (teg_loop (board0 ''dq'')) =
     [DigitalWrite 3 LOW, DigitalWrite 4 HIGH, AnalogWrite 2 255, SerialPrintln ''d'', Delay 100] \<and>
   new_events (board0 ''w'') (teg_loop (board0 ''w'')) =
     [DigitalWrite 5 HIGH, DigitalWrite 6 LOW, AnalogWrite 7 135, SerialPrintln ''w'', Delay 100] \<and>
   new_events (board0 ''x'') (teg_loop (board0 ''x'')) =
     [DigitalWrite 5 LOW, DigitalWrite 6 HIGH, AnalogWrite 7 135, SerialPrintln ''x'', Delay 100] \<and>
   new_events (board0 ''s'') (teg_loop (board0 ''s'')) =
     [DigitalWrite 3 LOW, DigitalWrite 4 LOW, AnalogWrite 2 0,
      DigitalWrite 5 LOW, DigitalWrite 6 LOW, AnalogWrite 7 0, SerialPrintln ''s'', Delay 100]"
proof -
  have a: "serial_in (board0 ''a'') = CHR ''a'' # []"
    and d: "serial_in (board0 ''dq'') = CHR ''d'' # ''q''"
    and w: "serial_in (board0 ''w'') = CHR ''w'' # []"
    and x: "serial_in (board0 ''x'') = CHR ''x'' # []"
    and s: "serial_in (board0 ''s'') = CHR ''s'' # []"
    by (simp_all add: board0_def)
  show ?thesis
    using dispatch_table [OF a] dispatch_table [OF d] dispatch_table [OF w]
      dispatch_table [OF x] dispatch_table [OF s]
    by (simp add: board_ops teg_pins)
qed

text \<open>
  C6: in an iteration that consumes a byte other than \<open>a\<close>, \<open>d\<close>, \<open>w\<close>, \<open>x\<close> and
  \<open>s\<close>, the byte is removed from the receive buffer, no pin is written, nothing is
  printed, and the levels and duty cycles of all pins are as before; the only call is
  the delay.
\<close>

theorem unmapped_byte_dropped:
  assumes "serial_in b = c # rest"
    and "c \<noteq> CHR ''a''" "c \<noteq> CHR ''d''" "c \<noteq> CHR ''w''" "c \<noteq> CHR ''x''" "c \<noteq> CHR ''s''"
  shows "teg_loop b = delay 100 (b\<lparr>serial_in := rest\<rparr>) \<and>
         new_events b (teg_loop b) = [Delay 100] \<and>
         serial_in (teg_loop b) = rest \<and>
         levels (teg_loop b) = levels b \<and>
         duties (teg_loop b) = duties b"
  using assms by (simp add: teg_loop_byte dispatch_def board_ops)

theorem unmapped_byte_dropped_witness:
  "new_events (board0 ''qa'') (teg_loop (board0 ''qa'')) = [Delay 100] \<and>
   serial_in (teg_loop (board0 ''qa'')) = ''a'' \<and>
   levels (teg_loop (board0 ''qa'')) = levels (board0 ''qa'') \<and>
   duties (teg_loop (board0 ''qa'')) = duties (board0 ''qa'')"
proof -
  have q: "serial_in (board0 ''qa'') = CHR ''q'' # ''a''"
    by (simp add: board0_def)
  show ?thesis
    using unmapped_byte_dropped [OF q] by (simp add: board_ops)
qed

text \<open>
  For any actuator whose two direction pins are different pins, the state after an
  operation has not both of them \<open>HIGH\<close>, and is in exactly one of the three states.
\<close>

lemma both_active_after_call:
  "pin1 t \<noteq> pin2 t \<Longrightarrow> \<not> both_active t (teg_call t op b)"
  by (cases op) (simp_all add: both_active_def board_ops)

lemma states_held_after_call:
  "pin1 t \<noteq> pin2 t \<Longrightarrow> states_held t (teg_call t op b) = 1"
  by (cases op)
    (simp_all add: states_held_def forward_active_def backward_active_def stopped_def board_ops)

lemma states_held_le_1: "states_held t b \<le> 1"
  by (cases "levels b (pin1 t)"; cases "levels b (pin2 t)")
    (simp_all add: states_held_def forward_active_def backward_active_def stopped_def)

text \<open>
  Inside \<open>forward\<close>, between its two \<^verbatim>\<open>digitalWrite\<close> calls, both direction pins are
  \<open>HIGH\<close> when the actuator was driven backward before (and likewise inside \<open>backward\<close>
  after \<open>forward\<close>); the second call ends that. The theorem below is about the state
  when an operation has returned.
\<close>

lemma forward_after_backward_between_writes:
  "pin1 t \<noteq> pin2 t \<Longrightarrow> backward_active t b \<Longrightarrow> both_active t (digitalWrite (pin1 t) HIGH b)"
  by (simp add: backward_active_def both_active_def digitalWrite_def)

text \<open>
  C7: after \<open>forward\<close>, \<open>backward\<close> or \<open>stop\<close> on either instance, the two direction
  pins of that instance are not both \<open>HIGH\<close>, and the instance is in exactly one of
  forward-active, backward-active and stopped. An operation on one instance leaves the
  direction pins of the other as they were. In every state of the board, at most one of
  the three holds for an instance.
\<close>

theorem direction_pins_exclusive:
  "\<not> both_active TEG_L (teg_call TEG_L op b) \<and>
   \<not> both_active TEG_R (teg_call TEG_R op b) \<and>
   states_held TEG_L (teg_call TEG_L op b) = 1 \<and>
   states_held TEG_R (teg_call TEG_R op b) = 1 \<and>
   both_active TEG_L (teg_call TEG_R op b) = both_active TEG_L b \<and>
   both_active TEG_R (teg_call TEG_L op b) = both_active TEG_R b \<and>
   states_held TEG_L b \<le> 1 \<and> states_held TEG_R b \<le> 1"
proof -
  have L: "pin1 TEG_L \<noteq> pin2 TEG_L" and R: "pin1 TEG_R \<noteq> pin2 TEG_R"
    by (simp_all add: teg_pins)
  have "both_active TEG_L (teg_call TEG_R op b) = both_active TEG_L b"
    by (cases op) (simp_all add: both_active_def board_ops teg_pins)
  moreover have "both_active TEG_R (teg_call TEG_L op b) = both_active TEG_R b"
    by (cases op) (simp_all add: both_active_def board_ops teg_pins)
  moreover note both_active_after_call [OF L, of op b] both_active_after_call [OF R, of op b]
    states_held_after_call [OF L, of op b] states_held_after_call [OF R, of op b]
    states_held_le_1 [of TEG_L b] states_held_le_1 [of TEG_R b]
  ultimately show ?thesis by blast
qed

text \<open>
  C8: for every actuator, power level \<open>p\<close> and board state, \<open>forward p\<close> (or
  \<open>backward p\<close>) followed by \<open>stop\<close> leaves both direction pins \<open>LOW\<close> and the duty
  cycle of the enable pin 0.
\<close>

theorem stop_after_drive:
  "levels (stop t (forward t p b)) (pin1 t) = LOW \<and>
   levels (stop t (forward t p b)) (pin2 t) = LOW \<and>
   duties (stop t (forward t p b)) (enable_pin t) = 0 \<and>
   levels (stop t (backward t p b)) (pin1 t) = LOW \<and>
   levels (stop t (backward t p b)) (pin2 t) = LOW \<and>
   duties (stop t (backward t p b)) (enable_pin t) = 0"
  by (simp add: board_ops)

section \<open>Properties of the binary32 arithmetic\<close>

subsection \<open>The exponent\<close>

lemma ilog2_bounds:
  assumes "0 < x"
  shows "2 powi (ilog2 x) \<le> x" and "x < 2 powi (ilog2 x + 1)"
proof -
  obtain p q where pq: "quotient_of x = (p, q)" by (cases "quotient_of x")
  then have q: "0 < q" and x: "x = of_int p / of_int q"
    by (simp_all add: quotient_of_denom_pos quotient_of_div)
  from assms x q have p: "0 < p"
    by (simp add: zero_less_divide_iff)
  define a where "a = bitlen p"
  define b where "b = bitlen q"
  have a1: "1 \<le> a" and b1: "1 \<le> b"
    using p q by (simp_all add: a_def b_def bitlen_alt_def)
  have pb: "(2::int) ^ nat (a - 1) \<le> p" "p < 2 ^ nat a"
    using bitlen_bounds [OF p] by (simp_all add: a_def)
  have qb: "(2::int) ^ nat (b - 1) \<le> q" "q < 2 ^ nat b"
    using bitlen_bounds [OF q] by (simp_all add: b_def)
  have pr: "(2::rat) powi (a - 1) \<le> of_int p" "of_int p < (2::rat) powi a"
  proof -
    have "(of_int ((2::int) ^ nat (a - 1)) :: rat) \<le> of_int p"
      using pb(1) by (simp only: of_int_le_iff)
    then show "(2::rat) powi (a - 1) \<le> of_int p"
      using a1 by (simp add: power_int_def)
    have "(of_int p :: rat) < of_int ((2::int) ^ nat a)"
      using pb(2) by (simp only: of_int_less_iff)
    then show "of_int p < (2::rat) powi a"
      using a1 by (simp add: power_int_def)
  qed
  have qr: "(2::rat) powi (b - 1) \<le> of_int q" "of_int q < (2::rat) powi b"
  proof -
    have "(of_int ((2::int) ^ nat (b - 1)) :: rat) \<le> of_int q"
      using qb(1) by (simp only: of_int_le_iff)
    then show "(2::rat) powi (b - 1) \<le> of_int q"
      using b1 by (simp add: power_int_def)
    have "(of_int q :: rat) < of_int ((2::int) ^ nat b)"
      using qb(2) by (simp only: of_int_less_iff)
    then show "of_int q < (2::rat) powi b"
      using b1 by (simp add: power_int_def)
  qed
  have q0: "(0::rat) < of_int q" using q by simp
  have lo: "(2::rat) powi (a - b - 1) < x"
  proof -
    have "(2::rat) powi (a - b - 1) * of_int q < 2 powi (a - b - 1) * 2 powi b"
      using qr(2) by (simp add: mult_strict_left_mono)
    also have "\<dots> = 2 powi (a - 1)"
      by (simp add: power_int_add [symmetric])
    also have "\<dots> \<le> of_int p" by (rule pr(1))
    finally show ?thesis
      using q0 by (simp add: x pos_less_divide_eq)
  qed
  have hi: "x < (2::rat) powi (a - b + 1)"
  proof -
    have "of_int p < (2::rat) powi a" by (rule pr(2))
    also have "\<dots> = 2 powi (a - b + 1) * 2 powi (b - 1)"
      by (simp add: power_int_add [symmetric])
    also have "\<dots> \<le> 2 powi (a - b + 1) * of_int q"
      using qr(1) by (simp add: mult_left_mono)
    finally show ?thesis
      using q0 by (simp add: x pos_divide_less_eq)
  qed
  have il: "ilog2 x = (if 2 powi (a - b) \<le> x then a - b else a - b - 1)"
    by (simp add: ilog2_def pq a_def b_def Let_def)
  show "2 powi (ilog2 x) \<le> x"
    using lo by (simp add: il)
  show "x < 2 powi (ilog2 x + 1)"
    using hi by (simp add: il not_le)
qed

lemma powi2_pos [simp]: "(0::rat) < 2 powi k"
  by (simp add: zero_less_power_int)

lemma powi2_mono: "a \<le> b \<Longrightarrow> (2::rat) powi a \<le> 2 powi b"
  by (rule power_int_increasing) simp_all

lemma powi2_less_imp_less:
  assumes "(2::rat) powi a < 2 powi b"
  shows "a < b"
proof (rule ccontr)
  assume "\<not> a < b"
  then have "(2::rat) powi b \<le> 2 powi a" by (simp add: powi2_mono)
  with assms show False by simp
qed

lemma ilog2_unique:
  assumes "0 < x" "2 powi e \<le> x" "x < 2 powi (e + 1)"
  shows "ilog2 x = e"
proof -
  have "(2::rat) powi (ilog2 x) < 2 powi (e + 1)"
    using ilog2_bounds(1) [OF assms(1)] assms(3) by (rule le_less_trans)
  then have 1: "ilog2 x < e + 1" by (rule powi2_less_imp_less)
  have "(2::rat) powi e < 2 powi (ilog2 x + 1)"
    using assms(2) ilog2_bounds(2) [OF assms(1)] by (rule le_less_trans)
  then have 2: "e < ilog2 x + 1" by (rule powi2_less_imp_less)
  from 1 2 show ?thesis by simp
qed

subsection \<open>Rounding to an integer, ties to even\<close>

lemma round_even_of_int [simp]: "round_even (of_int n) = n"
  by (simp add: round_even_def)

lemma round_even_cases:
  "round_even x = \<lfloor>x\<rfloor> \<or> round_even x = \<lfloor>x\<rfloor> + 1"
  by (simp add: round_even_def Let_def)

lemma round_even_error: "\<bar>of_int (round_even x) - x\<bar> \<le> 1 / 2"
proof -
  have "of_int \<lfloor>x\<rfloor> \<le> x" "x < of_int \<lfloor>x\<rfloor> + 1"
    by linarith+
  then show ?thesis
    by (auto simp add: round_even_def Let_def abs_le_iff)
qed

lemma round_even_mono:
  assumes "x \<le> y"
  shows "round_even x \<le> round_even y"
proof (cases "\<lfloor>x\<rfloor> < \<lfloor>y\<rfloor>")
  case True
  have "round_even x \<le> \<lfloor>x\<rfloor> + 1"
    using round_even_cases [of x] by auto
  moreover have "\<lfloor>y\<rfloor> \<le> round_even y"
    using round_even_cases [of y] by auto
  ultimately show ?thesis using True by linarith
next
  case False
  with assms have "\<lfloor>x\<rfloor> = \<lfloor>y\<rfloor>"
    using floor_mono [of x y] by linarith
  with assms show ?thesis
    by (auto simp add: round_even_def Let_def)
qed

lemma round_even_minus: "round_even (- x) = - round_even x"
proof (cases "x = of_int \<lfloor>x\<rfloor>")
  case True
  then obtain n where "x = of_int n" ..
  then have "- x = of_int (- n)" by simp
  then show ?thesis
    unfolding \<open>x = of_int n\<close> by (simp only: round_even_of_int)
next
  case False
  have "of_int \<lfloor>x\<rfloor> \<le> x" and up: "x < of_int \<lfloor>x\<rfloor> + 1"
    by linarith+
  with False have "of_int \<lfloor>x\<rfloor> < x" by linarith
  have fl: "\<lfloor>- x\<rfloor> = - \<lfloor>x\<rfloor> - 1"
  proof (rule floor_unique)
    show "of_int (- \<lfloor>x\<rfloor> - 1) \<le> - x"
      using up by simp
    show "- x < of_int (- \<lfloor>x\<rfloor> - 1) + 1"
      using \<open>of_int \<lfloor>x\<rfloor> < x\<close> by simp
  qed
  show ?thesis
    using False by (auto simp add: round_even_def Let_def fl)
qed

subsection \<open>Rounding to binary32: sign symmetry, exactness, monotonicity\<close>

lemma powi2_add: "(2::rat) powi a * 2 powi b = 2 powi (a + b)"
  by (simp add: power_int_add)

lemma f32_ulp_pos [simp]: "0 < f32_ulp x"
  by (simp add: f32_ulp_def)

lemma f32_ulp_minus [simp]: "f32_ulp (- x) = f32_ulp x"
  by (simp add: f32_ulp_def)

lemma f32_round_0 [simp]: "f32_round 0 = 0"
  by (simp add: f32_round_def)

lemma f32_round_minus: "f32_round (- x) = - f32_round x"
proof -
  have "round_even (- x / f32_ulp x) = - round_even (x / f32_ulp x)"
    using round_even_minus [of "x / f32_ulp x"] by simp
  then show ?thesis
    by (simp add: f32_round_def)
qed

lemma ilog2_mono:
  assumes "0 < x" "x \<le> y"
  shows "ilog2 x \<le> ilog2 y"
proof -
  from assms have y: "0 < y" by simp
  have "2 powi (ilog2 x) \<le> x" by (rule ilog2_bounds(1) [OF assms(1)])
  also note \<open>x \<le> y\<close>
  also have "y < 2 powi (ilog2 y + 1)" by (rule ilog2_bounds(2) [OF y])
  finally have "ilog2 x < ilog2 y + 1" by (rule powi2_less_imp_less)
  then show ?thesis by simp
qed

lemma f32_round_exact:
  assumes x: "x = of_int m * 2 powi k" and m: "\<bar>m\<bar> < 2 ^ 24" and k: "- 149 \<le> k"
  shows "f32_round x = x"
proof (cases "m = 0")
  case True
  then show ?thesis by (simp add: x)
next
  case False
  then have x0: "x \<noteq> 0" and ax: "0 < \<bar>x\<bar>"
    by (simp_all add: x)
  define U where "U = max (ilog2 \<bar>x\<bar>) (- 126) - 23"
  have u: "f32_ulp x = 2 powi U"
    by (simp add: f32_ulp_def U_def)
  have "(of_int \<bar>m\<bar> :: rat) < of_int (2 ^ 24)"
    using m by (simp only: of_int_less_iff)
  then have "(of_int \<bar>m\<bar> :: rat) < 2 powi 24" by simp
  have "2 powi (ilog2 \<bar>x\<bar>) \<le> \<bar>x\<bar>" by (rule ilog2_bounds(1) [OF ax])
  also have "\<bar>x\<bar> = of_int \<bar>m\<bar> * 2 powi k"
    by (simp add: x abs_mult)
  also have "\<dots> < 2 powi 24 * 2 powi k"
    using \<open>(of_int \<bar>m\<bar> :: rat) < 2 powi 24\<close> by (simp add: mult_strict_right_mono)
  also have "\<dots> = 2 powi (24 + k)"
    by (simp add: power_int_add)
  finally have "ilog2 \<bar>x\<bar> < 24 + k" by (rule powi2_less_imp_less)
  with k have Uk: "U \<le> k" by (simp add: U_def)
  have "x / 2 powi U = of_int m * 2 powi (k - U)"
    by (simp add: x power_int_diff)
  also have "\<dots> = of_int (m * 2 ^ nat (k - U))"
    using Uk by (simp add: power_int_def)
  finally have "round_even (x / 2 powi U) = m * 2 ^ nat (k - U)"
    by (simp only: round_even_of_int)
  then have "f32_round x = of_int (m * 2 ^ nat (k - U)) * 2 powi U"
    using x0 by (simp add: f32_round_def u)
  also have "\<dots> = of_int m * (2 powi (k - U) * 2 powi U)"
    using Uk by (simp add: power_int_def)
  also have "\<dots> = x"
    by (simp add: x power_int_add [symmetric])
  finally show ?thesis .
qed

lemma f32_round_of_int:
  "\<bar>n\<bar> < 2 ^ 24 \<Longrightarrow> f32_round (of_int n) = of_int n"
  using f32_round_exact [of "of_int n" n 0] by simp

lemma f32_round_pos_bounds:
  assumes "0 < x"
  defines "E \<equiv> max (ilog2 x) (- 126)"
  shows "0 \<le> f32_round x" and "f32_round x \<le> 2 powi (E + 1)"
    and "- 126 \<le> ilog2 x \<Longrightarrow> 2 powi E \<le> f32_round x"
proof -
  have u: "f32_ulp x = 2 powi (E - 23)"
    using assms by (simp add: f32_ulp_def)
  have r: "f32_round x = of_int (round_even (x / 2 powi (E - 23))) * 2 powi (E - 23)"
    using assms(1) by (simp add: f32_round_def u)
  have "0 \<le> x / 2 powi (E - 23)" using assms(1) by simp
  then have "round_even 0 \<le> round_even (x / 2 powi (E - 23))"
    by (rule round_even_mono)
  then have "0 \<le> round_even (x / 2 powi (E - 23))"
    using round_even_of_int [of 0] by simp
  then show "0 \<le> f32_round x"
    by (simp add: r)
  have "x < 2 powi (ilog2 x + 1)" by (rule ilog2_bounds(2) [OF assms(1)])
  also have "\<dots> \<le> 2 powi (E + 1)"
    by (rule powi2_mono) (simp add: E_def)
  also have "\<dots> = 2 powi 24 * 2 powi (E - 23)"
    using powi2_add [of 24 "E - 23"] by (simp add: ac_simps)
  finally have "x / 2 powi (E - 23) \<le> of_int (2 ^ 24)"
    by (simp add: pos_divide_le_eq)
  then have "round_even (x / 2 powi (E - 23)) \<le> round_even (of_int (2 ^ 24))"
    by (rule round_even_mono)
  then have "round_even (x / 2 powi (E - 23)) \<le> 2 ^ 24"
    by (simp only: round_even_of_int)
  then have "(of_int (round_even (x / 2 powi (E - 23))) :: rat) \<le> of_int (2 ^ 24)"
    by (simp only: of_int_le_iff)
  then have "f32_round x \<le> of_int (2 ^ 24) * 2 powi (E - 23)"
    by (simp add: r mult_right_mono)
  also have "\<dots> = 2 powi (E + 1)"
    using powi2_add [of 24 "E - 23"] by (simp add: ac_simps)
  finally show "f32_round x \<le> 2 powi (E + 1)" .
  show "2 powi E \<le> f32_round x" if "- 126 \<le> ilog2 x"
  proof -
    from that have E: "E = ilog2 x" by (simp add: E_def)
    have "2 powi 23 * 2 powi (E - 23) = (2::rat) powi E"
      using powi2_add [of 23 "E - 23"] by (simp add: ac_simps)
    also have "\<dots> \<le> x"
      unfolding E by (rule ilog2_bounds(1) [OF assms(1)])
    finally have "of_int (2 ^ 23) \<le> x / 2 powi (E - 23)"
      by (simp add: pos_le_divide_eq)
    then have "round_even (of_int (2 ^ 23)) \<le> round_even (x / 2 powi (E - 23))"
      by (rule round_even_mono)
    then have "2 ^ 23 \<le> round_even (x / 2 powi (E - 23))"
      by (simp only: round_even_of_int)
    then have "(of_int (2 ^ 23) :: rat) \<le> of_int (round_even (x / 2 powi (E - 23)))"
      by (simp only: of_int_le_iff)
    then have "of_int (2 ^ 23) * 2 powi (E - 23) \<le> f32_round x"
      by (simp add: r mult_right_mono)
    moreover have "of_int (2 ^ 23) * 2 powi (E - 23) = (2::rat) powi E"
      using powi2_add [of 23 "E - 23"] by (simp add: ac_simps)
    ultimately show ?thesis by simp
  qed
qed

lemma f32_round_mono_pos:
  assumes "0 < x" "x \<le> y"
  shows "f32_round x \<le> f32_round y"
proof -
  from assms have y: "0 < y" by simp
  define Ex where "Ex = max (ilog2 x) (- 126)"
  define Ey where "Ey = max (ilog2 y) (- 126)"
  have le: "Ex \<le> Ey"
    using ilog2_mono [OF assms] by (simp add: Ex_def Ey_def)
  show ?thesis
  proof (cases "Ex = Ey")
    case True
    have ux: "f32_ulp x = 2 powi (Ex - 23)"
      using assms(1) by (simp add: f32_ulp_def Ex_def)
    have "f32_ulp y = 2 powi (Ey - 23)"
      using y by (simp add: f32_ulp_def Ey_def)
    then have uy: "f32_ulp y = 2 powi (Ex - 23)"
      by (simp only: True)
    have "x / 2 powi (Ex - 23) \<le> y / 2 powi (Ex - 23)"
      using assms(2) by (simp add: divide_right_mono)
    then have "round_even (x / 2 powi (Ex - 23)) \<le> round_even (y / 2 powi (Ex - 23))"
      by (rule round_even_mono)
    then have "(of_int (round_even (x / 2 powi (Ex - 23))) :: rat)
        \<le> of_int (round_even (y / 2 powi (Ex - 23)))"
      by (simp only: of_int_le_iff)
    then show ?thesis
      using assms(1) y by (simp add: f32_round_def ux uy mult_right_mono)
  next
    case False
    with le have lt: "Ex < Ey" by simp
    then have "- 126 \<le> ilog2 y" unfolding Ex_def Ey_def by linarith
    then have "2 powi Ey \<le> f32_round y"
      unfolding Ey_def by (rule f32_round_pos_bounds(3) [OF y])
    moreover have "f32_round x \<le> 2 powi (Ex + 1)"
      unfolding Ex_def by (rule f32_round_pos_bounds(2) [OF assms(1)])
    moreover have "(2::rat) powi (Ex + 1) \<le> 2 powi Ey"
      using lt by (intro powi2_mono) simp
    ultimately show ?thesis by linarith
  qed
qed

lemma f32_round_nonneg: "0 \<le> x \<Longrightarrow> 0 \<le> f32_round x"
  using f32_round_pos_bounds(1) [of x] by (cases "x = 0") simp_all

lemma f32_round_mono:
  assumes "x \<le> y"
  shows "f32_round x \<le> f32_round y"
proof -
  consider "0 < x" | "x \<le> 0" "0 \<le> y" | "y < 0" by linarith
  then show ?thesis
  proof cases
    case 1
    then show ?thesis using assms by (rule f32_round_mono_pos)
  next
    case 2
    have "0 \<le> f32_round (- x)" using 2(1) by (simp add: f32_round_nonneg)
    then have "f32_round x \<le> 0" by (simp add: f32_round_minus)
    moreover have "0 \<le> f32_round y" using 2(2) by (rule f32_round_nonneg)
    ultimately show ?thesis by simp
  next
    case 3
    then have "0 < - y" "- y \<le> - x" using assms by simp_all
    then have "f32_round (- y) \<le> f32_round (- x)" by (rule f32_round_mono_pos)
    then show ?thesis by (simp add: f32_round_minus)
  qed
qed

subsection \<open>Rounding to binary32: the error\<close>

lemma f32_round_error_ulp: "\<bar>f32_round x - x\<bar> \<le> f32_ulp x / 2"
proof (cases "x = 0")
  case True
  then show ?thesis by (simp add: less_imp_le [OF f32_ulp_pos])
next
  case False
  define u where "u = f32_ulp x"
  have u: "0 < u" by (simp add: u_def)
  have u0: "f32_ulp x \<noteq> 0"
    by (metis f32_ulp_pos less_irrefl)
  have "f32_round x - x = (of_int (round_even (x / u)) - x / u) * u"
    using False u0 by (simp add: f32_round_def u_def algebra_simps)
  then have "\<bar>f32_round x - x\<bar> = \<bar>of_int (round_even (x / u)) - x / u\<bar> * u"
    using u by (simp add: abs_mult)
  also have "\<dots> \<le> 1 / 2 * u"
    using round_even_error [of "x / u"] u by (intro mult_right_mono) simp_all
  finally show ?thesis by (simp add: u_def)
qed

lemma f32_ulp_le:
  assumes "x \<noteq> 0"
  shows "f32_ulp x \<le> \<bar>x\<bar> / 2 ^ 23 + 1 / 2 ^ 149"
proof (cases "- 126 \<le> ilog2 \<bar>x\<bar>")
  case True
  from assms have ax: "0 < \<bar>x\<bar>" by simp
  have "f32_ulp x = 2 powi (ilog2 \<bar>x\<bar> - 23)"
    using True by (simp add: f32_ulp_def)
  also have "\<dots> = 2 powi (ilog2 \<bar>x\<bar>) / 2 ^ 23"
    by (simp add: power_int_diff)
  also have "\<dots> \<le> \<bar>x\<bar> / 2 ^ 23"
    using ilog2_bounds(1) [OF ax] by (simp add: divide_right_mono)
  finally show ?thesis by simp
next
  case False
  then have "f32_ulp x = 2 powi (- 149)"
    by (simp add: f32_ulp_def)
  also have "(2::rat) powi (- 149) = 1 / 2 ^ 149"
    by (simp add: power_int_minus)
  finally have "f32_ulp x = 1 / 2 ^ 149" .
  moreover have "0 \<le> \<bar>x\<bar> / 2 ^ 23" by simp
  ultimately show ?thesis by linarith
qed

lemma f32_round_error: "\<bar>f32_round x - x\<bar> \<le> \<bar>x\<bar> / 2 ^ 24 + 1 / 2 ^ 150"
proof (cases "x = 0")
  case True
  then show ?thesis by simp
next
  case False
  have "\<bar>f32_round x - x\<bar> \<le> f32_ulp x / 2" by (rule f32_round_error_ulp)
  also have "\<dots> \<le> (\<bar>x\<bar> / 2 ^ 23 + 1 / 2 ^ 149) / 2"
    using f32_ulp_le [OF False] by (simp add: divide_right_mono)
  also have "\<dots> = \<bar>x\<bar> / 2 ^ 24 + 1 / 2 ^ 150"
    by (simp add: add_divide_distrib)
  finally show ?thesis .
qed

subsection \<open>The constants and conversions of the sketch\<close>

lemma alpha_value: "f32_round (9 / 10) = 15099494 / 16777216"
  by code_simp

lemma beta_value: "f32_sub 1 (f32_round (9 / 10)) = 1677722 / 16777216"
  by code_simp

lemma f32_of_int_sint:
  "f32_of_int (sint (r :: 16 word)) = of_int (sint r)"
proof -
  have "- (2 ^ 15) \<le> sint r" "sint r < 2 ^ 15"
    using sint_ge [of r] sint_lt [of r] by simp_all
  then have "\<bar>sint r\<bar> < 2 ^ 24" by simp
  then show ?thesis
    unfolding f32_of_int_def by (rule f32_round_of_int)
qed

lemma f32_round_5 [simp]: "f32_round 5 = 5"
  using f32_round_of_int [of 5] by simp

lemma f32_round_1024 [simp]: "f32_round 1024 = 1024"
  using f32_round_of_int [of 1024] by simp

section \<open>Properties of the sampler\<close>

subsection \<open>The scenario of the specification\<close>

text \<open>
  C1, as the sketch behaves: run from the initial globals over the iterations with clock
  values 0, 20, 55, 60, 110 ms, the reading at each of them being 500, 500, 600, 600,
  700, the sketch prints nothing at 0, 20 and 60 ms, and prints one line at 55 ms and one
  at 110 ms. The sample at 55 ms is the first one, so it is not smoothed: the filter
  returns 600, and the voltage is 600 * 5 / 1024 = 2.9296875, about 2.93. At 110 ms the
  filter returns 0.9 * 600 + 0.1 * 700 computed in binary32, which is exactly 610, and the
  voltage is 610 * 5 / 1024 = 2.978515625, about 2.98.
\<close>

theorem scenario_outputs:
  "outputs sampler_init [(0, 500), (20, 500), (55, 600), (60, 600), (110, 700)] =
     [[], [],
      [PrintULong 55, PrintStr '','', PrintlnFloat (375 / 128)], [],
      [PrintULong 110, PrintStr '','', PrintlnFloat (1525 / 512)]] \<and>
   map analogValue (states sampler_init [(0, 500), (20, 500), (55, 600), (60, 600), (110, 700)]) =
     [0, 0, 600, 600, 610] \<and>
   \<bar>375 / 128 - 293 / 100\<bar> < (1 / 200 :: rat) \<and>
   \<bar>1525 / 512 - 298 / 100\<bar> < (1 / 200 :: rat)"
  by code_simp

text \<open>
  Against C1 as stated: the iteration at clock value 0 prints nothing, since
  \<open>previousMillis\<close> starts at 0 and 0 - 0 is less than the interval. The first sample is
  the one at 55 ms, and the value it returns is the reading 600, not 510.
\<close>

theorem no_sample_at_time_zero:
  "fst (sampler_loop sampler_init 0 500) = [] \<and>
   outputs sampler_init [(0, 500), (20, 500), (55, 600), (60, 600), (110, 700)] ! 0 = [] \<and>
   analogValue (snd (sampler_loop sampler_init 55 600)) \<noteq> 510"
  by code_simp

subsection \<open>The sampling interval\<close>

lemma sampler_loop_fires:
  "fst (sampler_loop s now r) \<noteq> [] \<longleftrightarrow> interval \<le> now - previousMillis s"
  by (simp add: sampler_loop_def Let_def)

lemma filter_update_previousMillis [simp]:
  "previousMillis (filter_update s r) = previousMillis s"
  by (simp add: filter_update_def Let_def)

lemma sampler_loop_previousMillis:
  "previousMillis (snd (sampler_loop s now r)) =
     (if interval \<le> now - previousMillis s then now else previousMillis s)"
  by (simp add: sampler_loop_def Let_def)

lemma fire_times_successively:
  "successively (\<lambda>a b. interval \<le> b - a) (previousMillis s # fire_times s ticks)"
proof (induction ticks arbitrary: s)
  case Nil
  show ?case by simp
next
  case (Cons tick ticks)
  obtain now r where tick: "tick = (now, r)" by (cases tick)
  show ?case
  proof (cases "interval \<le> now - previousMillis s")
    case True
    let ?s' = "snd (sampler_loop s now r)"
    have "previousMillis ?s' = now"
      using True by (simp add: sampler_loop_previousMillis)
    with Cons.IH [of ?s'] have "successively (\<lambda>a b. interval \<le> b - a) (now # fire_times ?s' ticks)"
      by simp
    moreover have "fire_times s (tick # ticks) = now # fire_times ?s' ticks"
      using True by (simp add: tick sampler_loop_def Let_def)
    ultimately show ?thesis using True by simp
  next
    case False
    then have "fire_times s (tick # ticks) = fire_times s ticks"
      by (simp add: tick sampler_loop_def)
    then show ?thesis using Cons.IH [of s] by simp
  qed
qed

text \<open>
  C2, as the sketch behaves: for every list of clock values, each sampling iteration has
  a clock value that is at least \<open>interval\<close> (50 ms) after that of the sampling iteration
  before it (for the first one: after the initial \<open>previousMillis\<close>), the difference
  being taken modulo \<open>2\<^sup>3\<^sup>2\<close>, so also across a wrap of the clock. An iteration prints
  exactly when that difference to \<open>previousMillis\<close> is at least \<open>interval\<close>, and
  \<open>previousMillis\<close> changes in those iterations only, to the current clock value.
\<close>

theorem consecutive_fires_spaced:
  "successively (\<lambda>a b. interval \<le> b - a) (previousMillis s # fire_times s ticks) \<and>
   (fst (sampler_loop s now r) \<noteq> [] \<longleftrightarrow> interval \<le> now - previousMillis s) \<and>
   previousMillis (snd (sampler_loop s now r)) =
     (if interval \<le> now - previousMillis s then now else previousMillis s)"
  by (simp add: fire_times_successively sampler_loop_fires sampler_loop_previousMillis)

text \<open>
  Across a wrap: after a sample at \<open>2\<^sup>3\<^sup>2 - 6\<close>, the clock values 20 (26 ms later) and 44
  (50 ms later) follow; the first does not sample, the second does.
\<close>

lemma wraparound_example:
  "fire_times sampler_init [(4294967290, 0), (20, 0), (44, 0), (94, 0)] = [4294967290, 44, 94]"
  by code_simp

text \<open>
  In elapsed time, any two samples are at least 50 ms apart, however often the clock has
  wrapped in between: if the iterations come in the order of time and \<open>previousMillis\<close>
  holds the clock value of an earlier moment \<open>t0\<close>, the moments of the samples, with \<open>t0\<close>
  in front, are pairwise at least 50 apart.
\<close>

lemma interval_elapsed:
  assumes "interval \<le> (of_nat t :: 32 word) - of_nat t0" and "t0 \<le> t"
  shows "t0 + 50 \<le> t"
proof -
  have "(of_nat t :: 32 word) - of_nat t0 = of_nat (t - t0)"
    using assms(2) by simp
  then have "unat interval \<le> unat (of_nat (t - t0) :: 32 word)"
    using assms(1) by (simp add: word_le_nat_alt)
  moreover have "unat (of_nat (t - t0) :: 32 word) \<le> t - t0"
    by (simp add: unat_of_nat)
  moreover have "unat interval = 50"
    by (simp add: interval_def)
  ultimately show ?thesis using assms(2) by linarith
qed

lemma sample_moments_apart:
  assumes "sorted (map fst ticks)" and "previousMillis s = of_nat t0"
    and "\<forall>t \<in> set (map fst ticks). t0 \<le> t"
  shows "sorted_wrt (\<lambda>a b. a + 50 \<le> b) (t0 # sample_moments s ticks)"
  using assms
proof (induction ticks arbitrary: s t0)
  case Nil
  show ?case by simp
next
  case (Cons tick ticks)
  obtain t r where tick: "tick = (t, r)" by (cases tick)
  from Cons.prems have srt: "sorted (map fst ticks)" and t0: "t0 \<le> t"
    and later: "\<forall>u \<in> set (map fst ticks). t \<le> u"
    by (auto simp add: tick)
  show ?case
  proof (cases "interval \<le> of_nat t - previousMillis s")
    case True
    let ?s' = "snd (sampler_loop s (of_nat t) r)"
    have prev: "previousMillis ?s' = of_nat t"
      using True by (simp add: sampler_loop_previousMillis)
    have ih: "sorted_wrt (\<lambda>a b. a + 50 \<le> b) (t # sample_moments ?s' ticks)"
      using srt prev later by (rule Cons.IH)
    have step: "t0 + 50 \<le> t"
      using True t0 by (intro interval_elapsed) (simp add: Cons.prems(2))
    have eq: "sample_moments s (tick # ticks) = t # sample_moments ?s' ticks"
      using True by (simp add: tick sampler_loop_def Let_def)
    show ?thesis
      using ih step by (auto simp add: eq)
  next
    case False
    then have eq: "sample_moments s (tick # ticks) = sample_moments s ticks"
      by (simp add: tick sampler_loop_def)
    have "\<forall>u \<in> set (map fst ticks). t0 \<le> u"
      using later t0 by auto
    with srt Cons.prems(2) have "sorted_wrt (\<lambda>a b. a + 50 \<le> b) (t0 # sample_moments s ticks)"
      by (rule Cons.IH)
    then show ?thesis by (simp add: eq)
  qed
qed

text \<open>
  Against C2 as stated for any two sampling iterations: the clock values \<open>2\<^sup>3\<^sup>1\<close>, 0 and
  \<open>2\<^sup>3\<^sup>1 + 10\<close> (each \<open>2\<^sup>3\<^sup>1\<close> ms or more after the one before, modulo \<open>2\<^sup>3\<^sup>2\<close>) all sample,
  and the first and the third differ by 10.
\<close>

theorem any_two_fires_counterexample:
  "fire_times sampler_init [(2147483648, 0), (0, 0), (2147483658, 0)] =
     [2147483648, 0, 2147483658] \<and>
   \<not> interval \<le> (2147483658 :: 32 word) - 2147483648"
  by code_simp

subsection \<open>The smoothing filter\<close>

lemma filter_update_bootstrap:
  assumes "last_val s \<le> 0"
  shows "filter_update s r = s\<lparr>analogValue := of_int (sint r), last_val := of_int (sint r)\<rparr>"
  using assms by (simp add: filter_update_def Let_def f32_of_int_sint)

lemma filter_update_smooth:
  assumes "0 < last_val s"
  shows "analogValue (filter_update s r) =
           f32_add (f32_mul (alpha s) (last_val s)) (f32_mul (f32_sub 1 (alpha s)) (of_int (sint r)))"
    and "last_val (filter_update s r) = analogValue (filter_update s r)"
proof -
  have one: "f32_of_int 1 = 1"
    using f32_round_of_int [of 1] by (simp add: f32_of_int_def)
  show "analogValue (filter_update s r) =
           f32_add (f32_mul (alpha s) (last_val s)) (f32_mul (f32_sub 1 (alpha s)) (of_int (sint r)))"
    using assms by (simp add: filter_update_def Let_def f32_of_int_sint one)
  show "last_val (filter_update s r) = analogValue (filter_update s r)"
    by (simp add: filter_update_def Let_def)
qed

lemma sampler_init_last_val: "last_val sampler_init = - 1"
  by code_simp

lemma foldl_zero_bootstrap:
  "last_val s \<le> 0 \<Longrightarrow> last_val (foldl filter_update s (replicate n 0)) \<le> 0"
  by (induction n arbitrary: s) (simp_all add: filter_update_bootstrap)

text \<open>
  C3: for every reading \<open>r\<close>, an update made while \<open>last_val\<close> holds the sentinel (the
  initial -1, or any value that is not positive) returns exactly \<open>r\<close>, and \<open>r\<close> becomes
  the stored state. The conversion of the 16-bit reading to binary32 is exact.
\<close>

theorem first_call_returns_raw:
  "last_val s \<le> 0 \<Longrightarrow>
     analogValue (filter_update s r) = of_int (sint r) \<and>
     last_val (filter_update s r) = of_int (sint r)"
  by (simp add: filter_update_bootstrap)

theorem first_call_returns_raw_witness:
  "last_val sampler_init \<le> 0 \<and>
   analogValue (filter_update sampler_init 500) = 500 \<and>
   last_val (filter_update sampler_init 500) = 500"
proof -
  have h: "last_val sampler_init \<le> 0" by (simp add: sampler_init_last_val)
  show ?thesis
    using h first_call_returns_raw [OF h, of 500] by simp
qed

text \<open>
  With a positive stored history \<open>h\<close> and the reading \<open>r\<close>, the value returned is
  \<open>0.9 * h + 0.1 * r\<close> up to the rounding of the constant 0.9 and of the three operations:
  the error is at most \<open>(h + \<bar>r\<bar>) / 2\<^sup>2\<^sup>2 + 2\<^sup>-\<^sup>1\<^sup>4\<^sup>8\<close>.
\<close>

lemma smoothing_within_tolerance:
  assumes h: "0 < last_val s" and al: "alpha s = f32_round (9 / 10)"
  shows "\<bar>analogValue (filter_update s r) - (9 / 10 * last_val s + 1 / 10 * of_int (sint r))\<bar>
           \<le> (last_val s + \<bar>of_int (sint r)\<bar>) / 2 ^ 22 + 1 / 2 ^ 148"
proof -
  define x where "x = last_val s"
  define y :: rat where "y = of_int (sint r)"
  define A where "A = 15099494 / 16777216 * x"
  define B where "B = 1677722 / 16777216 * y"
  define a where "a = f32_round A"
  define b where "b = f32_round B"
  define out where "out = f32_round (a + b)"
  have "analogValue (filter_update s r) =
          f32_add (f32_mul (f32_round (9 / 10)) x) (f32_mul (f32_sub 1 (f32_round (9 / 10))) y)"
    using filter_update_smooth(1) [OF h, of r] by (simp only: al x_def y_def)
  also have "\<dots> = f32_add (f32_mul (f32_round (9 / 10)) x) (f32_mul (1677722 / 16777216) y)"
    by (simp only: beta_value)
  also have "\<dots> = out"
    by (simp only: alpha_value f32_add_def f32_mul_def out_def a_def b_def A_def B_def)
  finally have out: "analogValue (filter_update s r) = out" .
  have x: "0 < x" using h by (simp add: x_def)
  define eta :: rat where "eta = 1 / 2 ^ 150"
  have eta: "0 < eta" by (simp add: eta_def)
  have e1: "\<bar>a - A\<bar> \<le> \<bar>A\<bar> / 16777216 + eta"
    using f32_round_error [of A] by (simp add: a_def eta_def)
  have e2: "\<bar>b - B\<bar> \<le> \<bar>B\<bar> / 16777216 + eta"
    using f32_round_error [of B] by (simp add: b_def eta_def)
  have e3: "\<bar>out - (a + b)\<bar> \<le> \<bar>a + b\<bar> / 16777216 + eta"
    using f32_round_error [of "a + b"] by (simp add: out_def eta_def)
  have A: "\<bar>A\<bar> \<le> 9 / 10 * x" "\<bar>A - 9 / 10 * x\<bar> \<le> x / 33554432"
    using x by (simp_all add: A_def)
  have B: "\<bar>B\<bar> \<le> 11 / 100 * \<bar>y\<bar>" "\<bar>B - 1 / 10 * y\<bar> \<le> \<bar>y\<bar> / 33554432"
    by (simp_all add: B_def abs_mult flip: left_diff_distrib)
  have ab: "\<bar>a + b\<bar> \<le> x + \<bar>y\<bar> + 2 * eta"
    using e1 e2 A(1) B(1) x by linarith
  define d1 where "d1 = \<bar>out - (a + b)\<bar>"
  define d2 where "d2 = \<bar>a - A\<bar>"
  define d3 where "d3 = \<bar>b - B\<bar>"
  define d4 where "d4 = \<bar>A - 9 / 10 * x\<bar>"
  define d5 where "d5 = \<bar>B - 1 / 10 * y\<bar>"
  define ay where "ay = \<bar>y\<bar>"
  have "\<bar>out - (9 / 10 * x + 1 / 10 * y)\<bar> \<le> d1 + d2 + d3 + d4 + d5"
    unfolding d1_def d2_def d3_def d4_def d5_def by linarith
  also have "\<dots> \<le> (x + ay) / 4194304 + 4 * eta"
  proof -
    have "d1 \<le> (x + ay + 2 * eta) / 16777216 + eta"
      using e3 ab by (simp add: d1_def ay_def add_divide_distrib)
    moreover have "d2 \<le> (9 / 10 * x) / 16777216 + eta"
      using e1 A(1) by (simp add: d2_def)
    moreover have "d3 \<le> (11 / 100 * ay) / 16777216 + eta"
      using e2 B(1) by (simp add: d3_def ay_def)
    moreover have "d4 \<le> x / 33554432"
      using A(2) by (simp add: d4_def)
    moreover have "d5 \<le> ay / 33554432"
      using B(2) by (simp add: d5_def ay_def)
    moreover have "0 \<le> ay" by (simp add: ay_def)
    ultimately show ?thesis
      using x eta by (simp add: add_divide_distrib)
  qed
  also have "\<dots> = (x + \<bar>y\<bar>) / 4194304 + 4 * eta"
    by (simp add: ay_def)
  finally show ?thesis
    by (simp add: out x_def y_def eta_def)
qed

text \<open>
  C4 at the input where the sketch departs from it: after a first reading of 0 the stored
  history is 0, and the next update, with reading 1000, returns 1000, whereas
  0.9 * 0 + 0.1 * 1000 is 100.
\<close>

theorem zero_history_not_smoothed:
  "last_val (filter_update sampler_init 0) = 0 \<and>
   analogValue (filter_update (filter_update sampler_init 0) 1000) = 1000 \<and>
   9 / 10 * last_val (filter_update sampler_init 0) + 1 / 10 * 1000 = 100"
  by code_simp

text \<open>
  C10, as the sketch behaves: an update made while the stored state is not positive and
  receiving the reading 0 stores 0; every update made while the stored state is not
  positive returns its reading unchanged and stores it, so after any number of readings
  of 0 the next reading is still returned unchanged. This lasts until an update stores a
  positive value: an update made while the stored state is positive returns the
  smoothing formula, computed in binary32, instead of its reading.
\<close>

theorem zero_sample_keeps_bootstrap:
  "(last_val s \<le> 0 \<longrightarrow> last_val (filter_update s 0) = 0) \<and>
   (last_val s \<le> 0 \<longrightarrow>
      analogValue (filter_update s r) = of_int (sint r) \<and>
      last_val (filter_update s r) = of_int (sint r)) \<and>
   (last_val s \<le> 0 \<longrightarrow>
      analogValue (filter_update (foldl filter_update s (replicate n 0)) r) = of_int (sint r)) \<and>
   (0 < last_val s \<longrightarrow>
      analogValue (filter_update s r) =
        f32_add (f32_mul (alpha s) (last_val s)) (f32_mul (f32_sub 1 (alpha s)) (of_int (sint r))))"
  using foldl_zero_bootstrap [of s n]
  by (simp add: filter_update_bootstrap filter_update_smooth)

theorem zero_sample_keeps_bootstrap_witness:
  "last_val (filter_update sampler_init 0) = 0 \<and>
   analogValue (filter_update sampler_init 700) = 700 \<and>
   analogValue (filter_update (foldl filter_update sampler_init (replicate 3 0)) 700) = 700 \<and>
   analogValue (filter_update (filter_update sampler_init 500) 600) = 510"
proof -
  have h0: "last_val sampler_init \<le> 0"
    by (simp add: sampler_init_last_val)
  have h1: "0 < last_val (filter_update sampler_init 500)"
    by code_simp
  have v: "f32_add (f32_mul (alpha (filter_update sampler_init 500))
                            (last_val (filter_update sampler_init 500)))
                   (f32_mul (f32_sub 1 (alpha (filter_update sampler_init 500)))
                            (of_int (sint (600 :: 16 word)))) = 510"
    by code_simp
  show ?thesis
    using zero_sample_keeps_bootstrap [of sampler_init 700 3]
      zero_sample_keeps_bootstrap [of "filter_update sampler_init 500" 600 0] h0 h1 v
    by simp
qed

text \<open>
  Against C10 as stated for every update that receives the reading 0: with a stored
  state of 500 the reading 0 is smoothed, and the stored state becomes 450, not 0.
\<close>

theorem zero_sample_after_history:
  "last_val (filter_update sampler_init 500) = 500 \<and>
   last_val (filter_update (filter_update sampler_init 500) 0) = 450"
  by code_simp

lemma filter_update_alpha [simp]: "alpha (filter_update s r) = alpha s"
  by (simp add: filter_update_def Let_def)

text \<open>
  How long the smoothing then lasts depends on the readings. While they are not negative,
  as those of the converter are, a stored state of at least \<open>2\<^sup>-\<^sup>1\<^sup>4\<^sup>9\<close>, the smallest
  positive binary32 value, stays so, and every update is smoothed. A negative reading can
  bring the stored state back below 0, and the next reading is then returned unchanged.
\<close>

lemma filter_update_stays_positive:
  assumes h: "2 powi (- 149) \<le> last_val s" and al: "alpha s = f32_round (9 / 10)"
    and r: "0 \<le> sint r"
  shows "2 powi (- 149) \<le> last_val (filter_update s r)"
proof -
  define x where "x = last_val s"
  define y :: rat where "y = of_int (sint r)"
  define a where "a = f32_round (15099494 / 16777216 * x)"
  define b where "b = f32_round (1677722 / 16777216 * y)"
  have pos: "0 < last_val s"
    using h powi2_pos [of "- 149"] by linarith
  have "(of_int 0 :: rat) \<le> of_int (sint r)"
    using r by (simp only: of_int_le_iff)
  then have y: "0 \<le> y" by (simp add: y_def)
  have "analogValue (filter_update s r) =
          f32_add (f32_mul (f32_round (9 / 10)) x) (f32_mul (f32_sub 1 (f32_round (9 / 10))) y)"
    using filter_update_smooth(1) [OF pos, of r] by (simp only: al x_def y_def)
  also have "\<dots> = f32_add (f32_mul (f32_round (9 / 10)) x) (f32_mul (1677722 / 16777216) y)"
    by (simp only: beta_value)
  also have "\<dots> = f32_round (a + b)"
    by (simp only: alpha_value f32_add_def f32_mul_def a_def b_def)
  finally have out: "analogValue (filter_update s r) = f32_round (a + b)" .
  have "f32_round (15099494 / 16777216 * 2 powi (- 149)) \<le> a"
    unfolding a_def using h by (intro f32_round_mono) (simp add: x_def)
  moreover have "f32_round (15099494 / 16777216 * 2 powi (- 149)) = 2 powi (- 149)"
    by code_simp
  ultimately have a: "2 powi (- 149) \<le> a" by simp
  have "f32_round 0 \<le> b"
    unfolding b_def using y by (intro f32_round_mono) simp
  then have b: "0 \<le> b" by simp
  have "f32_round (2 powi (- 149)) \<le> f32_round (a + b)"
    using a b by (intro f32_round_mono) linarith
  moreover have "f32_round (2 powi (- 149)) = 2 powi (- 149)"
    by code_simp
  ultimately have "2 powi (- 149) \<le> f32_round (a + b)" by simp
  then show ?thesis
    using filter_update_smooth(2) [OF pos, of r] by (simp add: out)
qed

lemma smoothing_persists:
  assumes "2 powi (- 149) \<le> last_val s" and "alpha s = f32_round (9 / 10)"
    and "list_all (\<lambda>r. 0 \<le> sint r) rs"
  shows "2 powi (- 149) \<le> last_val (foldl filter_update s rs)"
  using assms
proof (induction rs arbitrary: s)
  case Nil
  then show ?case by simp
next
  case (Cons r rs)
  have "2 powi (- 149) \<le> last_val (filter_update s r)"
    using Cons.prems by (intro filter_update_stays_positive) simp_all
  moreover have "alpha (filter_update s r) = f32_round (9 / 10)"
    using Cons.prems(2) by simp
  ultimately show ?case
    using Cons.prems(3) Cons.IH [of "filter_update s r"] by simp
qed

lemma negative_reading_resets:
  "last_val (foldl filter_update sampler_init [100, - 32768]) < 0 \<and>
   analogValue (foldl filter_update sampler_init [100, - 32768, 7]) = 7"
  by code_simp

subsection \<open>The range of the globals\<close>

lemma sint16_bounds:
  "- 32768 \<le> (of_int (sint (r :: 16 word)) :: rat)" "(of_int (sint r) :: rat) \<le> 32768"
proof -
  have "- 32768 \<le> sint r" "sint r \<le> 32768"
    using sint_ge [of r] sint_lt [of r] by simp_all
  then have "(of_int (- 32768) :: rat) \<le> of_int (sint r)" "(of_int (sint r) :: rat) \<le> of_int 32768"
    by (simp_all only: of_int_le_iff)
  then show "- 32768 \<le> (of_int (sint r) :: rat)" "(of_int (sint r) :: rat) \<le> 32768"
    by simp_all
qed

lemma filter_update_bounded:
  assumes "sampler_bounded s"
  shows "sampler_bounded (filter_update s r)"
proof (cases "0 < last_val s")
  case False
  then have "filter_update s r = s\<lparr>analogValue := of_int (sint r), last_val := of_int (sint r)\<rparr>"
    by (simp add: filter_update_bootstrap)
  then show ?thesis
    using assms sint16_bounds [of r] by (simp add: sampler_bounded_def abs_le_iff)
next
  case True
  define x where "x = last_val s"
  define y :: rat where "y = of_int (sint r)"
  define a where "a = f32_round (15099494 / 16777216 * x)"
  define b where "b = f32_round (1677722 / 16777216 * y)"
  from assms have al: "alpha s = f32_round (9 / 10)" and x: "x \<le> 32768"
    by (simp_all add: sampler_bounded_def x_def abs_le_iff)
  have y: "- 32768 \<le> y" "y \<le> 32768"
    using sint16_bounds [of r] by (simp_all add: y_def)
  have "analogValue (filter_update s r) =
          f32_add (f32_mul (f32_round (9 / 10)) x) (f32_mul (f32_sub 1 (f32_round (9 / 10))) y)"
    using filter_update_smooth(1) [OF True, of r] by (simp only: al x_def y_def)
  also have "\<dots> = f32_add (f32_mul (f32_round (9 / 10)) x) (f32_mul (1677722 / 16777216) y)"
    by (simp only: beta_value)
  also have "\<dots> = f32_round (a + b)"
    by (simp only: alpha_value f32_add_def f32_mul_def a_def b_def)
  finally have out: "analogValue (filter_update s r) = f32_round (a + b)" .
  have "f32_round 0 \<le> a"
    unfolding a_def using True by (intro f32_round_mono) (simp add: x_def)
  then have a0: "0 \<le> a" by simp
  have "a \<le> f32_round (15099494 / 16777216 * 32768)"
    unfolding a_def using x by (intro f32_round_mono) simp
  also have "f32_round (15099494 / 16777216 * 32768) = 15099494 / 512"
    by code_simp
  finally have a1: "a \<le> 15099494 / 512" .
  have "b \<le> f32_round (1677722 / 16777216 * 32768)"
    unfolding b_def using y(2) by (intro f32_round_mono) simp
  also have "f32_round (1677722 / 16777216 * 32768) = 1677722 / 512"
    by code_simp
  finally have b1: "b \<le> 1677722 / 512" .
  have "f32_round (1677722 / 16777216 * (- 32768)) \<le> b"
    unfolding b_def using y(1) by (intro f32_round_mono) simp
  moreover have "f32_round (1677722 / 16777216 * (- 32768)) = - (1677722 / 512)"
    by code_simp
  ultimately have b0: "- (1677722 / 512) \<le> b" by simp
  have "f32_round (a + b) \<le> f32_round 32768"
    using a1 b1 by (intro f32_round_mono) simp
  moreover have "f32_round 32768 = 32768" by code_simp
  moreover have "f32_round (- 32768) \<le> f32_round (a + b)"
    using a0 b0 by (intro f32_round_mono) simp
  moreover have "f32_round (- 32768) = - 32768" by code_simp
  ultimately have "\<bar>f32_round (a + b)\<bar> \<le> 32768"
    by (simp add: abs_le_iff)
  then show ?thesis
    using al filter_update_smooth(2) [OF True, of r]
    by (simp add: sampler_bounded_def out)
qed

lemma sampler_init_bounded: "sampler_bounded sampler_init"
  by code_simp

lemma sampler_loop_bounded:
  assumes "sampler_bounded s"
  shows "sampler_bounded (snd (sampler_loop s now r))"
proof -
  have "sampler_bounded (s\<lparr>previousMillis := now\<rparr>)"
    using assms by (simp add: sampler_bounded_def)
  then have "sampler_bounded (filter_update (s\<lparr>previousMillis := now\<rparr>) r)"
    by (rule filter_update_bounded)
  then show ?thesis
    using assms by (simp add: sampler_loop_def Let_def)
qed

lemma states_bounded:
  "sampler_bounded s \<Longrightarrow> list_all sampler_bounded (states s ticks)"
proof (induction ticks arbitrary: s)
  case Nil
  show ?case by simp
next
  case (Cons tick ticks)
  obtain now r where tick: "tick = (now, r)" by (cases tick)
  have "sampler_bounded (snd (sampler_loop s now r))"
    using Cons.prems by (rule sampler_loop_bounded)
  then show ?case
    using Cons.IH [of "snd (sampler_loop s now r)"]
    by (cases "sampler_loop s now r") (simp add: tick)
qed

subsection \<open>The voltage conversion\<close>

lemma convert_mono:
  assumes "x \<le> y"
  shows "convert x \<le> convert y"
proof -
  have "x * 5 \<le> y * 5" using assms by simp
  then have "f32_round (x * 5) \<le> f32_round (y * 5)" by (rule f32_round_mono)
  then have "f32_round (x * 5) / 1024 \<le> f32_round (y * 5) / 1024"
    by (simp add: divide_right_mono)
  then have "f32_round (f32_round (x * 5) / 1024) \<le> f32_round (f32_round (y * 5) / 1024)"
    by (rule f32_round_mono)
  then show ?thesis
    by (simp add: convert_def f32_mul_def f32_div_def)
qed

lemma convert_of_int:
  assumes "\<bar>n\<bar> < 2 ^ 21"
  shows "convert (of_int n) = of_int n * 5 / 1024"
proof -
  from assms have n5: "\<bar>n * 5\<bar> < 2 ^ 24" by (simp add: abs_mult)
  have "f32_round (of_int (n * 5)) = of_int (n * 5)"
    using n5 by (rule f32_round_of_int)
  then have 1: "f32_round (of_int n * 5) = of_int n * 5" by simp
  have "f32_round (of_int n * 5 / 1024) = of_int n * 5 / 1024"
  proof (rule f32_round_exact [where m = "n * 5" and k = "- 10"])
    have "(2::rat) powi (- 10) = 1 / 1024"
      by (simp add: power_int_minus)
    then show "of_int n * 5 / 1024 = (of_int (n * 5) :: rat) * 2 powi (- 10)"
      by simp
    show "\<bar>n * 5\<bar> < 2 ^ 24" by (rule n5)
    show "(- 149 :: int) \<le> - 10" by simp
  qed
  with 1 show ?thesis
    by (simp add: convert_def f32_mul_def f32_div_def)
qed

lemma convert_bounded:
  assumes "\<bar>x\<bar> \<le> 32768"
  shows "\<bar>convert x\<bar> \<le> 160"
proof -
  have "convert (- 32768) \<le> convert x" "convert x \<le> convert 32768"
    using assms by (simp_all add: convert_mono abs_le_iff)
  moreover have "convert (- 32768) = - 160" "convert 32768 = 160"
    using convert_of_int [of "- 32768"] convert_of_int [of 32768] by simp_all
  ultimately show ?thesis
    by (simp add: abs_le_iff)
qed

text \<open>
  C9, as the sketch behaves: the conversion is \<open>x * 5 / 1024\<close> with both operations
  rounded to binary32. It preserves the order weakly on all inputs. On the integer
  readings 0 to 1023 it is exactly \<open>x * 5 / 1024\<close>, hence linear and strictly
  order-preserving there.
\<close>

theorem convert_order:
  "(x \<le> y \<longrightarrow> convert x \<le> convert y) \<and>
   (0 \<le> m \<and> m \<le> 1023 \<longrightarrow> convert (of_int m) = of_int m * 5 / 1024) \<and>
   (0 \<le> m \<and> m < n \<and> n \<le> 1023 \<longrightarrow> convert (of_int m) < convert (of_int n))"
proof (intro conjI impI)
  show "convert x \<le> convert y" if "x \<le> y"
    using that by (rule convert_mono)
  show "convert (of_int m) = of_int m * 5 / 1024" if "0 \<le> m \<and> m \<le> 1023"
    using that by (intro convert_of_int) simp
  show "convert (of_int m) < convert (of_int n)" if "0 \<le> m \<and> m < n \<and> n \<le> 1023"
  proof -
    have "convert (of_int m) = of_int m * 5 / 1024" "convert (of_int n) = of_int n * 5 / 1024"
      using that by (simp_all add: convert_of_int)
    then show ?thesis using that by simp
  qed
qed

theorem convert_order_witness:
  "convert 600 \<le> convert 610 \<and> convert 600 = 375 / 128 \<and> convert 600 < convert 610"
  using convert_order [of 600 610 600 610] by simp

text \<open>
  Against C9 as stated for all inputs in the range of the converter: two neighbouring
  binary32 values near 819.2 are converted to the same voltage, since five times the
  first needs 27 bits and rounds up, and five times the second rounds down.
\<close>

theorem convert_not_strict:
  "is_f32 (13421774 / 16384) \<and> is_f32 (13421775 / 16384) \<and>
   (0::rat) \<le> 13421774 / 16384 \<and> (13421774 / 16384 :: rat) < 13421775 / 16384 \<and>
   (13421775 / 16384 :: rat) \<le> 1023 \<and>
   \<not> convert (13421774 / 16384) < convert (13421775 / 16384)"
  by code_simp

end
